theory Spec2Isabelle
  imports Main "HOL-Library.AList"
begin

section \<open>Strings: the Python string operations the program uses\<close>

text \<open>
  Python strings are modelled as \<open>string\<close> (lists of 8-bit characters, the Latin-1
  range of Python's code points).  The characters that the source names literally
  and that cannot stand in a string literal here are given by their code.
\<close>

abbreviation BSLASH :: char where "BSLASH \<equiv> CHR 0x5C"
abbreviation DQUOTE :: char where "DQUOTE \<equiv> CHR 0x22"
abbreviation SQUOTE :: char where "SQUOTE \<equiv> CHR 0x27"
abbreviation ESC :: char where "ESC \<equiv> CHR 0x1B"

text \<open>\<open>str.isspace\<close> on one character: the whitespace that \<open>str.strip()\<close> removes.\<close>

definition is_space :: "char \<Rightarrow> bool" where
  "is_space c = (c \<in> set [CHR 0x09, CHR 0x0A, CHR 0x0B, CHR 0x0C, CHR 0x0D,
                           CHR 0x1C, CHR 0x1D, CHR 0x1E, CHR 0x1F, CHR 0x20,
                           CHR 0x85, CHR 0xA0])"

text \<open>\<open>s.strip()\<close>: whitespace removed at both ends.\<close>

definition strip :: "string \<Rightarrow> string" where
  "strip s = rev (dropWhile is_space (rev (dropWhile is_space s)))"

text \<open>\<open>s.startswith(p)\<close> and \<open>s.endswith(p)\<close>.\<close>

definition startswith :: "string \<Rightarrow> string \<Rightarrow> bool" where
  "startswith s p = (take (length p) s = p)"

definition endswith :: "string \<Rightarrow> string \<Rightarrow> bool" where
  "endswith s p = (length p \<le> length s \<and> drop (length s - length p) s = p)"

text \<open>\<open>sub in s\<close> for strings: \<open>sub\<close> occurs in \<open>s\<close> as a contiguous substring.\<close>

fun contains :: "string \<Rightarrow> string \<Rightarrow> bool" where
  "contains [] sub = (sub = [])"
| "contains (c # cs) sub = (startswith (c # cs) sub \<or> contains cs sub)"

text \<open>\<open>os.path.basename\<close> (POSIX): what follows the last slash.\<close>

definition basename :: "string \<Rightarrow> string" where
  "basename p = rev (takeWhile (\<lambda>c. c \<noteq> CHR ''/'') (rev p))"

text \<open>\<open>str(n)\<close> for an integer, as the f-strings of the source format an exit code.\<close>

fun str_nat :: "nat \<Rightarrow> string" where
  "str_nat n = (if n < 10 then [''0123456789'' ! n]
                else str_nat (n div 10) @ [''0123456789'' ! (n mod 10)])"

declare str_nat.simps [simp del]

definition str_int :: "int \<Rightarrow> string" where
  "str_int i = (if i < 0 then CHR ''-'' # str_nat (nat (- i)) else str_nat (nat i))"

section \<open>The variable store\<close>

text \<open>
  \<open>vars_map\<close> is a Python \<open>dict\<close> from strings to strings.  A dict keeps its keys in
  insertion order (which \<open>:vars\<close> prints), so the store is an association list:
  \<open>vars_map[k] = v\<close> is \<open>AList.update k v\<close> (the value is replaced in place when the
  key is present, the pair is appended otherwise), \<open>vars_map.get(k, d)\<close> reads
  \<open>map_of\<close>, and \<open>vars_map.items()\<close> is the list itself.
\<close>

type_synonym vars_map = "(string \<times> string) list"

definition dict_get :: "vars_map \<Rightarrow> string \<Rightarrow> string \<Rightarrow> string" where
  "dict_get m k d = (case map_of m k of Some v \<Rightarrow> v | None \<Rightarrow> d)"

text \<open>
  What the keys of the store have in common: no key occurs twice, and every key is a
  stripped text in which \<open>=\<close> does not occur.
\<close>

definition store_inv :: "vars_map \<Rightarrow> bool" where
  "store_inv vm =
     (distinct (map fst vm) \<and> list_all (\<lambda>k. CHR ''='' \<notin> set k \<and> strip k = k) (map fst vm))"

section \<open>Variable substitution\<close>

text \<open>
  The character classes of the pattern \<open>\$\{([A-Za-z_][A-Za-z0-9_]*)\}\<close>.
\<close>

definition is_ident_start :: "char \<Rightarrow> bool" where
  "is_ident_start c =
     (c \<in> set ''ABCDEFGHIJKLMNOPQRSTUVWXYZabcdefghijklmnopqrstuvwxyz_'')"

definition is_ident_char :: "char \<Rightarrow> bool" where
  "is_ident_char c = (is_ident_start c \<or> c \<in> set ''0123456789'')"

text \<open>A whole string matches \<open>[A-Za-z_][A-Za-z0-9_]*\<close>.\<close>

definition is_identifier :: "string \<Rightarrow> bool" where
  "is_identifier s =
     (case s of [] \<Rightarrow> False | c # cs \<Rightarrow> is_ident_start c \<and> list_all is_ident_char cs)"

text \<open>
  One attempt of the regular expression at the head of the string: \<open>Some (key, rest)\<close>
  when the string is \<open>${key}rest\<close>.  The starred class is followed by \<open>}\<close>, which is
  not in the class, so the match exists exactly when the longest run of identifier
  characters is followed by \<open>}\<close>.
\<close>

fun match_ref :: "string \<Rightarrow> (string \<times> string) option" where
  "match_ref (c1 # c2 # c # cs) =
     (if c1 = CHR ''$'' \<and> c2 = CHR ''{'' \<and> is_ident_start c then
        (case dropWhile is_ident_char cs of
           [] \<Rightarrow> None
         | d # rest \<Rightarrow>
             if d = CHR ''}'' then Some (c # takeWhile is_ident_char cs, rest) else None)
      else None)"
| "match_ref _ = None"

lemma match_ref_shorter: "match_ref s = Some (key, rest) \<Longrightarrow> length rest < length s"
proof (cases s rule: match_ref.cases)
  case (1 c1 c2 c cs)
  assume m: "match_ref s = Some (key, rest)"
  from m 1 obtain d where d: "dropWhile is_ident_char cs = d # rest"
    by (auto split: if_splits list.splits)
  have "length (dropWhile is_ident_char cs) \<le> length cs"
    by (rule length_dropWhile_le)
  with d 1 show ?thesis by simp
qed simp_all

text \<open>
  \<open>re.sub(pattern, repl, s)\<close>: the string is scanned from the left; where the pattern
  matches, the match is replaced by \<open>repl(m) = vars_map.get(key, m.group(0))\<close> and the
  scan goes on after the match; elsewhere the character is copied.
\<close>

function expand_vars :: "string \<Rightarrow> vars_map \<Rightarrow> string" where
  "expand_vars [] vm = []"
| "expand_vars (c # cs) vm =
     (case match_ref (c # cs) of
        Some (key, rest) \<Rightarrow>
          dict_get vm key (''${'' @ key @ ''}'') @ expand_vars rest vm
      | None \<Rightarrow> c # expand_vars cs vm)"
  by pat_completeness auto
termination
  by (relation "measure (\<lambda>(s, vm). length s)") (auto dest: match_ref_shorter)


section \<open>The tokenizer\<close>

text \<open>
  The program tokenizes with \<open>shlex.split\<close> of Python's standard library, whose code
  is not among the repository's sources.  Section 4.6 of the specification describes
  it: the substituted line is split into an argument vector by shell-style quoting and
  escaping rules (single and double quotes group tokens, a backslash escapes), and
  malformed quoting, such as an unterminated quote, fails with a parse error.  The
  definitions of this section model it; they follow the state machine of
  \<open>shlex.read_token\<close> in the configuration that \<open>shlex.split(s)\<close> sets up: POSIX
  mode, \<open>whitespace_split\<close> on, no comment characters, no punctuation characters.
\<close>

text \<open>
  Modelled from the spec: the parse errors of the tokenizer (the two \<open>ValueError\<close>s
  that \<open>shlex\<close> raises), which is not among the sources.
\<close>

datatype shlex_error = No_closing_quotation | No_escaped_character

text \<open>
  Modelled from the spec: the text of a parse error of the tokenizer, as \<open>str(e)\<close>
  gives it for the \<open>ValueError\<close> of \<open>shlex\<close>.
\<close>

fun error_text :: "shlex_error \<Rightarrow> string" where
  "error_text No_closing_quotation = ''No closing quotation''"
| "error_text No_escaped_character = ''No escaped character''"

text \<open>
  Modelled from the spec: the state of the tokenizer (\<open>shlex\<close>, not among the sources):
  \<open>' '\<close> between tokens, \<open>'a'\<close> inside a word, an open quote character, the escape
  character, and \<open>None\<close> after the end of the input.
\<close>

datatype lex_state = St_space | St_word | St_quote char | St_escape | St_eof

text \<open>
  Modelled from the spec: the whitespace and the quote characters of the tokenizer
  (\<open>shlex.whitespace\<close> and \<open>shlex.quotes\<close>, not among the sources).  The escape
  character is the backslash, and it escapes inside double quotes only.
\<close>

definition shlex_whitespace :: "char \<Rightarrow> bool" where
  "shlex_whitespace c = (c \<in> set [CHR 0x20, CHR 0x09, CHR 0x0D, CHR 0x0A])"

definition shlex_quote :: "char \<Rightarrow> bool" where
  "shlex_quote c = (c = SQUOTE \<or> c = DQUOTE)"

text \<open>
  Modelled from the spec: reading one token (\<open>shlex.read_token\<close>, not among the
  sources).  \<open>read_token state escapedstate quoted token input\<close> is the loop of
  \<open>read_token\<close>, one character of the input per iteration.  The result is the error
  raised, or the token, the \<open>quoted\<close> flag, the state the lexer is left in and the
  unread input.
\<close>

fun read_token ::
  "lex_state \<Rightarrow> lex_state \<Rightarrow> bool \<Rightarrow> string \<Rightarrow> string
    \<Rightarrow> shlex_error + (string \<times> bool \<times> lex_state \<times> string)" where
  "read_token St_eof es quoted tok inp = Inr ([], quoted, St_eof, drop 1 inp)"
| "read_token St_space es quoted tok [] = Inr (tok, quoted, St_eof, [])"
| "read_token St_space es quoted tok (c # cs) =
     (if shlex_whitespace c then
        (if tok \<noteq> [] \<or> quoted then Inr (tok, quoted, St_space, cs)
         else read_token St_space es quoted tok cs)
      else if c = BSLASH then read_token St_escape St_word quoted tok cs
      else if shlex_quote c then read_token (St_quote c) es quoted tok cs
      else read_token St_word es quoted [c] cs)"
| "read_token (St_quote q) es quoted tok [] = Inl No_closing_quotation"
| "read_token (St_quote q) es quoted tok (c # cs) =
     (if c = q then read_token St_word es True tok cs
      else if c = BSLASH \<and> q = DQUOTE then read_token St_escape (St_quote q) True tok cs
      else read_token (St_quote q) es True (tok @ [c]) cs)"
| "read_token St_escape es quoted tok [] = Inl No_escaped_character"
| "read_token St_escape es quoted tok (c # cs) =
     (let tok1 = (case es of
                    St_quote q \<Rightarrow> if c \<noteq> BSLASH \<and> c \<noteq> q then tok @ [BSLASH] else tok
                  | _ \<Rightarrow> tok)
      in read_token es es quoted (tok1 @ [c]) cs)"
| "read_token St_word es quoted tok [] = Inr (tok, quoted, St_eof, [])"
| "read_token St_word es quoted tok (c # cs) =
     (if shlex_whitespace c then
        (if tok \<noteq> [] \<or> quoted then Inr (tok, quoted, St_space, cs)
         else read_token St_space es quoted tok cs)
      else if shlex_quote c then read_token (St_quote c) es quoted tok cs
      else if c = BSLASH then read_token St_escape St_word quoted tok cs
      else read_token St_word es quoted (tok @ [c]) cs)"

text \<open>
  Every call of \<open>read_token\<close> that starts before the end of the input either reaches
  the end or reads at least one character.
\<close>

lemma read_token_progress:
  "read_token st es quoted tok inp = Inr (t, q', st', rest) \<Longrightarrow> st \<noteq> St_eof \<Longrightarrow>
   es \<noteq> St_eof \<Longrightarrow>
   length rest + (if st' = St_eof then 0 else 1) \<le> length inp"
  by (induction st es quoted tok inp rule: read_token.induct)
     (auto simp: Let_def split: if_splits lex_state.splits)

text \<open>
  Modelled from the spec: the list of all tokens (\<open>list(lex)\<close> in \<open>shlex.split\<close>, not
  among the sources).  Tokens are read until \<open>read_token\<close> gives \<open>None\<close>, which it
  does for an empty token that was not quoted.
\<close>

function shlex_tokens :: "lex_state \<Rightarrow> string \<Rightarrow> shlex_error + string list" where
  "shlex_tokens st inp =
     (case read_token st St_space False [] inp of
        Inl e \<Rightarrow> Inl e
      | Inr (tok, quoted, st', rest) \<Rightarrow>
          if \<not> quoted \<and> tok = [] then Inr []
          else (case shlex_tokens st' rest of
                  Inl e \<Rightarrow> Inl e
                | Inr toks \<Rightarrow> Inr (tok # toks)))"
  by pat_completeness auto
termination
proof (relation "measure (\<lambda>(st, inp). length inp + (if st = St_eof then 0 else 1))", goal_cases)
  case 1
  show ?case by simp
next
  case (2 st inp x2 tok y quoted ya st' rest)
  then have rt: "read_token st St_space False [] inp = Inr (tok, quoted, st', rest)"
    and ne: "quoted \<or> tok \<noteq> []"
    by auto
  show ?case
  proof (cases "st = St_eof")
    case True
    with rt ne show ?thesis by simp
  next
    case False
    with read_token_progress [OF rt] show ?thesis by simp
  qed
qed

declare shlex_tokens.simps [simp del]

text \<open>
  Modelled from the spec: the tokenizer itself (\<open>shlex.split(s)\<close>, not among the
  sources): the line is split from the state between tokens.
\<close>

definition shlex_split :: "string \<Rightarrow> shlex_error + string list" where
  "shlex_split s = shlex_tokens St_space s"


section \<open>The session's surroundings\<close>

text \<open>
  What the program does to its surroundings is recorded in a \<open>world\<close>: the lines it
  prints on the standard output and on the error stream, the prompts that \<open>input\<close>
  shows, the working directory of the process, the in-memory history of the
  line-input service, the argument vectors handed to \<open>subprocess.Popen\<close> and the
  command texts handed to \<open>subprocess.call(..., shell=True)\<close>, each in order.
\<close>

record world =
  out :: "string list"
  err :: "string list"
  prompts :: "string list"
  cwd :: string
  history :: "string list"
  spawned :: "string list list"
  shell_calls :: "string list"

text \<open>
  What \<open>Popen(full)\<close> followed by \<open>proc.wait()\<close> can do: the child runs and exits
  with a status, the executable is not found (\<open>FileNotFoundError\<close>), or another
  exception is raised (with its text).
\<close>

datatype popen_result = Exited int | File_not_found | Spawn_error string

text \<open>
  The services outside the program are parameters: whether \<open>readline\<close> could be
  imported, how a spawned process ends, the exit status of a shell command, and
  whether \<open>os.chdir\<close> succeeds (the new working directory) or fails (the text of
  the exception).  Each may depend on the whole state of the world.
\<close>

record env =
  have_readline :: bool
  popen :: "world \<Rightarrow> string list \<Rightarrow> popen_result"
  shell_call :: "world \<Rightarrow> string \<Rightarrow> int"
  chdir :: "world \<Rightarrow> string \<Rightarrow> string + string"

definition print_out :: "world \<Rightarrow> string \<Rightarrow> world" where
  "print_out w l = w\<lparr>out := out w @ [l]\<rparr>"

definition print_err :: "world \<Rightarrow> string \<Rightarrow> world" where
  "print_err w l = w\<lparr>err := err w @ [l]\<rparr>"

definition show_prompt :: "world \<Rightarrow> string \<Rightarrow> world" where
  "show_prompt w p = w\<lparr>prompts := prompts w @ [p]\<rparr>"

text \<open>
  \<open>readline.get_current_history_length()\<close> and \<open>readline.get_history_item(i)\<close>, whose
  index starts at 1; outside the history the item is \<open>None\<close>, which \<open>print\<close> writes
  as \<open>None\<close>.
\<close>

definition get_current_history_length :: "world \<Rightarrow> nat" where
  "get_current_history_length w = length (history w)"

definition get_history_item :: "world \<Rightarrow> nat \<Rightarrow> string" where
  "get_history_item w i =
     (if 1 \<le> i \<and> i \<le> length (history w) then history w ! (i - 1) else ''None'')"

section \<open>Handling one command line\<close>

text \<open>
  The three results of \<open>handle_command\<close>: the strings \<open>"continue"\<close> and \<open>"break"\<close>,
  and \<open>None\<close>.
\<close>

datatype outcome = Continue | Break | Normal

definition help_lines :: "string list" where
  "help_lines =
    ['':help                - this help'',
     '':set k=v            - set vars, used as ${k}'',
     '':vars               - list current variables'',
     '':pwd                - print working directory'',
     '':cd <path>          - change directory'',
     '':history            - show history (readline)'',
     '':exit | :quit | :q  - exit'']"

text \<open>
  \<open>handle_command raw base_cmd base_args vars_map\<close>, with the services and the world
  made explicit.  The result is the returned value, the variable store and the world
  after the call.  Under the guard \<open>"=" in rest\<close>, \<open>rest.split("=", 1)\<close> is the text
  before the first \<open>=\<close> and the text after it.
\<close>

definition handle_command ::
  "env \<Rightarrow> string \<Rightarrow> string \<Rightarrow> string list \<Rightarrow> vars_map \<Rightarrow> world
    \<Rightarrow> outcome \<times> vars_map \<times> world" where
  "handle_command ev raw base_cmd base_args vm w =
    (if startswith raw '':'' then
       (let cmd = strip (drop 1 raw) in
        if cmd \<in> set [''q'', ''quit'', ''exit''] then (Break, vm, w)
        else if cmd = ''help'' then (Continue, vm, foldl print_out w help_lines)
        else if startswith cmd ''set '' then
          (let rest = strip (drop 4 cmd) in
           if CHR ''='' \<in> set rest then
             (let k = takeWhile (\<lambda>c. c \<noteq> CHR ''='') rest;
                  v = drop 1 (dropWhile (\<lambda>c. c \<noteq> CHR ''='') rest)
              in (Continue, AList.update (strip k) (strip v) vm, w))
           else (Continue, vm, print_err w ''Usage: :set key=value''))
        else if cmd = ''vars'' then
          (Continue, vm, foldl print_out w (map (\<lambda>(k, v). k @ ''='' @ v) vm))
        else if cmd = ''pwd'' then (Continue, vm, print_out w (cwd w))
        else if startswith cmd ''cd '' then
          (let newdir = strip (drop 3 cmd) in
           case chdir ev w newdir of
             Inr d \<Rightarrow> (Continue, vm, w\<lparr>cwd := d\<rparr>)
           | Inl e \<Rightarrow> (Continue, vm, print_err w (''cd: '' @ e)))
        else if cmd = ''history'' \<and> have_readline ev then
          (Continue, vm,
           foldl print_out w
             (map (get_history_item w) [1 ..< get_current_history_length w + 1]))
        else (Continue, vm, print_err w ''Unknown built-in. Use :help''))
     else if startswith raw ''!'' then
       (let shell_cmd = strip (drop 1 raw) in
        if shell_cmd = [] then (Continue, vm, w)
        else
          (let rc = shell_call ev w shell_cmd;
               w1 = w\<lparr>shell_calls := shell_calls w @ [shell_cmd]\<rparr>
           in (Continue, vm,
               if rc \<noteq> 0 then print_err w1 (''[shell] exited with code '' @ str_int rc)
               else w1)))
     else
       (let expanded = expand_vars raw vm in
        case shlex_split expanded of
          Inl e \<Rightarrow> (Continue, vm, print_err w (''parse error: '' @ error_text e))
        | Inr args \<Rightarrow>
            (let full = [base_cmd] @ base_args @ args;
                 w1 = w\<lparr>spawned := spawned w @ [full]\<rparr>
             in case popen ev w full of
                  Exited rc \<Rightarrow>
                    (Normal, vm,
                     if rc \<noteq> 0
                     then print_err w1
                            (''['' @ basename base_cmd @ ''] exited with code '' @ str_int rc)
                     else w1)
                | File_not_found \<Rightarrow>
                    (Break, vm, print_err w1 (''Command not found: '' @ base_cmd))
                | Spawn_error msg \<Rightarrow> (Normal, vm, print_err w1 msg))))"

section \<open>The session loop\<close>

text \<open>
  The standard input is the list of the lines still to be read; \<open>input\<close> shows its
  prompt and returns the next line, or raises \<open>EOFError\<close> on the empty list.

  \<open>read_line_parts\<close> is the inner loop of \<open>run_repl\<close>: a line that ends with a
  backslash is buffered without it and the next line is read under the continuation
  prompt.  The result is \<open>None\<close> when the input ends first.
\<close>

fun read_line_parts ::
  "string \<Rightarrow> string \<Rightarrow> string list \<Rightarrow> world \<Rightarrow> string list
    \<Rightarrow> world \<times> (string list \<times> string list) option" where
  "read_line_parts prompt cont_prompt line_parts w [] =
     (show_prompt w (if line_parts = [] then prompt else cont_prompt), None)"
| "read_line_parts prompt cont_prompt line_parts w (line # ins) =
     (let w1 = show_prompt w (if line_parts = [] then prompt else cont_prompt) in
      if endswith line [BSLASH]
      then read_line_parts prompt cont_prompt (line_parts @ [butlast line]) w1 ins
      else (w1, Some (line_parts @ [line], ins)))"

text \<open>
  The body of the inner \<open>try\<close>: the buffered parts are joined with no separator and
  stripped, which gives the raw command line.
\<close>

definition read_raw ::
  "string \<Rightarrow> string \<Rightarrow> world \<Rightarrow> string list \<Rightarrow> world \<times> (string \<times> string list) option" where
  "read_raw prompt cont_prompt w ins =
     (case read_line_parts prompt cont_prompt [] w ins of
        (w1, None) \<Rightarrow> (w1, None)
      | (w1, Some (line_parts, ins')) \<Rightarrow> (w1, Some (strip (concat line_parts), ins')))"

lemma read_line_parts_shorter:
  "read_line_parts p c parts w ins = (w1, Some (parts', ins')) \<Longrightarrow> length ins' < length ins"
  by (induction p c parts w ins rule: read_line_parts.induct)
     (auto simp: Let_def split: if_splits)

lemma read_raw_shorter:
  "read_raw p c w ins = (w1, Some (raw, ins')) \<Longrightarrow> length ins' < length ins"
  by (auto simp: read_raw_def split: prod.splits option.splits dest: read_line_parts_shorter)

definition PROMPT_COLOR :: string where
  "PROMPT_COLOR = ESC # ''[1;36m''"

definition RESET :: string where
  "RESET = ESC # ''[0m''"

text \<open>The two prompts of \<open>run_repl\<close>.\<close>

definition prompt :: "string \<Rightarrow> string" where
  "prompt base_cmd = PROMPT_COLOR @ basename base_cmd @ ''>'' @ RESET @ '' ''"

definition cont_prompt :: string where
  "cont_prompt = ''..> ''"

text \<open>
  The outer loop of \<open>run_repl\<close>.  The result is the variable store and the world when
  the loop is left, and the input lines that were not read.
\<close>

function repl_loop ::
  "env \<Rightarrow> string \<Rightarrow> string list \<Rightarrow> vars_map \<Rightarrow> world \<Rightarrow> string list
    \<Rightarrow> vars_map \<times> world \<times> string list" where
  "repl_loop ev base_cmd base_args vm w ins =
     (case read_raw (prompt base_cmd) cont_prompt w ins of
        (w1, None) \<Rightarrow> (vm, print_out w1 [], [])
      | (w1, Some (raw, ins')) \<Rightarrow>
          if raw = [] then repl_loop ev base_cmd base_args vm w1 ins'
          else
            (case handle_command ev raw base_cmd base_args vm w1 of
               (result, vm', w2) \<Rightarrow>
                 if result = Break then (vm', w2, ins')
                 else repl_loop ev base_cmd base_args vm' w2 ins'))"
  by pat_completeness auto
termination
  by (relation "measure (\<lambda>(ev, base_cmd, base_args, vm, w, ins). length ins)")
     (auto dest: read_raw_shorter [OF sym])

declare repl_loop.simps [simp del]

text \<open>
  \<open>run_repl\<close> starts the loop with an empty variable store.  Setting up completion
  before the loop and writing the history file after it belong to the line-input
  service and touch neither the store nor the streams.
\<close>

definition run_repl ::
  "env \<Rightarrow> string \<Rightarrow> string list \<Rightarrow> world \<Rightarrow> string list \<Rightarrow> vars_map \<times> world \<times> string list" where
  "run_repl ev base_cmd base_args w ins = repl_loop ev base_cmd base_args [] w ins"


section \<open>A concrete session\<close>

text \<open>
  A world in which nothing has been printed or started yet, and services that answer
  every request in one fixed way: each spawn ends as given, each shell command exits
  with status 0 and each change of directory succeeds.
\<close>

definition fresh_world :: "string \<Rightarrow> string list \<Rightarrow> world" where
  "fresh_world d h =
     \<lparr>out = [], err = [], prompts = [], cwd = d, history = h, spawned = [],
      shell_calls = []\<rparr>"

definition fixed_env :: "bool \<Rightarrow> popen_result \<Rightarrow> env" where
  "fixed_env rl r =
     \<lparr>have_readline = rl, popen = (\<lambda>w argv. r), shell_call = (\<lambda>w c. 0),
      chdir = (\<lambda>w d. Inr d)\<rparr>"

section \<open>Substitution: properties\<close>

lemma not_ident_specials:
  "\<not> is_ident_char (CHR ''$'')" "\<not> is_ident_char (CHR ''}'')" "\<not> is_ident_start (CHR ''$'')"
  by (simp_all add: is_ident_char_def is_ident_start_def)

lemma takeWhile_all_then_stop:
  "\<forall>x\<in>set xs. P x \<Longrightarrow> \<not> P y \<Longrightarrow> takeWhile P (xs @ y # ys) = xs \<and> dropWhile P (xs @ y # ys) = y # ys"
  by (induction xs) simp_all

lemma match_ref_at_reference:
  assumes "is_identifier key"
  shows "match_ref (''${'' @ key @ ''}'' @ post) = Some (key, post)"
proof -
  from assms obtain c cs where key: "key = c # cs" and c: "is_ident_start c"
    and cs: "\<forall>x\<in>set cs. is_ident_char x"
    by (auto simp: is_identifier_def list_all_iff split: list.splits)
  from takeWhile_all_then_stop [OF cs not_ident_specials(2)]
  have "takeWhile is_ident_char (cs @ CHR ''}'' # post) = cs"
    and "dropWhile is_ident_char (cs @ CHR ''}'' # post) = CHR ''}'' # post"
    by simp_all
  with key c show ?thesis by simp
qed

lemma dropWhile_append_stop:
  "\<not> P y \<Longrightarrow> dropWhile P (xs @ y # ys) = (if \<forall>x\<in>set xs. P x then y # ys else dropWhile P xs @ y # ys)"
  by (induction xs) simp_all

lemma takeWhile_append_stop:
  "\<not> P y \<Longrightarrow> takeWhile P (xs @ y # ys) = takeWhile P xs"
  by (induction xs) simp_all

lemma dropWhile_Nil_all: "dropWhile P xs = [] \<longleftrightarrow> (\<forall>x\<in>set xs. P x)"
  by (induction xs) simp_all

lemma match_ref_before_dollar:
  assumes ne: "pre \<noteq> []"
  shows "match_ref (pre @ CHR ''$'' # x) =
     (case match_ref pre of Some (k, r) \<Rightarrow> Some (k, r @ CHR ''$'' # x) | None \<Rightarrow> None)"
proof -
  from ne obtain c1 p1 where p1: "pre = c1 # p1" by (cases pre) auto
  show ?thesis
  proof (cases p1)
    case Nil
    with p1 show ?thesis by (cases x) simp_all
  next
    case (Cons c2 p2)
    note p2 = this
    show ?thesis
    proof (cases p2)
      case Nil
      with p1 p2 show ?thesis by (simp add: not_ident_specials)
    next
      case (Cons c cs)
      with p1 p2 have pre: "pre = c1 # c2 # c # cs" by simp
      show ?thesis
      proof (cases "\<forall>x\<in>set cs. is_ident_char x")
        case True
        then have d: "dropWhile is_ident_char cs = []" by (simp add: dropWhile_Nil_all)
        from True pre show ?thesis
          by (simp add: d dropWhile_append_stop [where P = is_ident_char and y = "CHR ''$''"]
                not_ident_specials)
      next
        case False
        then have "dropWhile is_ident_char cs \<noteq> []" by (simp add: dropWhile_Nil_all)
        with False pre show ?thesis
          by (auto simp: dropWhile_append_stop [where P = is_ident_char and y = "CHR ''$''"]
                not_ident_specials
                takeWhile_append_stop [where P = is_ident_char and y = "CHR ''$''"]
                split: list.splits)
      qed
    qed
  qed
qed

lemma expand_vars_before_dollar:
  "expand_vars (pre @ CHR ''$'' # x) vm = expand_vars pre vm @ expand_vars (CHR ''$'' # x) vm"
proof (induction pre vm rule: expand_vars.induct)
  case (1 vm)
  show ?case by simp
next
  case (2 c cs vm)
  have m: "match_ref ((c # cs) @ CHR ''$'' # x) =
      (case match_ref (c # cs) of Some (k, r) \<Rightarrow> Some (k, r @ CHR ''$'' # x) | None \<Rightarrow> None)"
    by (rule match_ref_before_dollar) simp
  show ?case
  proof (cases "match_ref (c # cs)")
    case None
    with m 2 show ?thesis by simp
  next
    case (Some kr)
    obtain k r where kr: "kr = (k, r)" by (cases kr)
    with Some m 2 show ?thesis by simp
  qed
qed

lemma match_ref_needs_open: "\<not> startswith s ''${'' \<Longrightarrow> match_ref s = None"
  by (cases s rule: match_ref.cases) (auto simp: startswith_def)

lemma expand_vars_no_reference: "\<not> contains s ''${'' \<Longrightarrow> expand_vars s vm = s"
  by (induction s) (simp_all add: match_ref_needs_open)

text \<open>
  Claim C1.  Substitution replaces every reference \<open>${id}\<close>, with \<open>id\<close> an
  identifier, by the store's value for \<open>id\<close> when \<open>id\<close> is a key and leaves the text
  \<open>${id}\<close> as it is otherwise: around any such reference the result is the expansion
  of what precedes it, then the value (or the unchanged reference), then the expansion
  of what follows it.  The value is put into the result as it is and is not scanned
  again.  A string in which \<open>${\<close> does not occur is returned unchanged.
\<close>

theorem expand_vars_spec:
  "(is_identifier key \<longrightarrow>
      expand_vars (pre @ ''${'' @ key @ ''}'' @ post) vm =
        expand_vars pre vm
        @ (case map_of vm key of Some v \<Rightarrow> v | None \<Rightarrow> ''${'' @ key @ ''}'')
        @ expand_vars post vm)
   \<and> (\<not> contains s ''${'' \<longrightarrow> expand_vars s vm = s)"
proof (intro conjI impI)
  assume k: "is_identifier key"
  have "expand_vars (pre @ ''${'' @ key @ ''}'' @ post) vm
      = expand_vars pre vm @ expand_vars (''${'' @ key @ ''}'' @ post) vm"
    using expand_vars_before_dollar [of pre "CHR ''{'' # key @ ''}'' @ post" vm] by simp
  moreover have "expand_vars (''${'' @ key @ ''}'' @ post) vm
      = dict_get vm key (''${'' @ key @ ''}'') @ expand_vars post vm"
    using match_ref_at_reference [OF k, of post] by simp
  ultimately show "expand_vars (pre @ ''${'' @ key @ ''}'' @ post) vm =
        expand_vars pre vm
        @ (case map_of vm key of Some v \<Rightarrow> v | None \<Rightarrow> ''${'' @ key @ ''}'')
        @ expand_vars post vm"
    by (simp add: dict_get_def cong: option.case_cong)
next
  assume "\<not> contains s ''${''"
  then show "expand_vars s vm = s" by (rule expand_vars_no_reference)
qed

theorem expand_vars_spec_witness:
  "is_identifier ''x'' \<and> \<not> contains ''ls -l'' ''${''
   \<and> expand_vars ''a ${x} ${y} ${x}'' [(''x'', ''${y}'')] = ''a ${y} ${y} ${y}''
   \<and> expand_vars ''ls -l'' [(''x'', ''${y}'')] = ''ls -l''"
proof -
  have i: "is_identifier ''x''" "is_identifier ''y''"
    by (simp_all add: is_identifier_def is_ident_start_def is_ident_char_def)
  have n: "\<not> contains ''ls -l'' ''${''" "\<not> contains ''a '' ''${''" "\<not> contains '' '' ''${''"
    by (simp_all add: startswith_def)
  from expand_vars_spec [of "''x''" "''a ''" "'' ${y} ${x}''" "[(''x'', ''${y}'')]" "''a ''"]
    expand_vars_spec [of "''y''" "'' ''" "'' ${x}''" "[(''x'', ''${y}'')]" "'' ''"]
    expand_vars_spec [of "''x''" "'' ''" "[]" "[(''x'', ''${y}'')]" "''ls -l''"]
    i n
  show ?thesis by simp
qed

section \<open>Forwarding: properties\<close>

lemma expand_vars_status: "expand_vars ''status'' vm = ''status''"
  by (rule expand_vars_no_reference) (simp add: startswith_def)

lemma shlex_split_status: "shlex_split ''status'' = Inr [''status'']"
  by (simp add: shlex_split_def shlex_tokens.simps shlex_whitespace_def shlex_quote_def)

lemma world_fields:
  "spawned (print_err w l) = spawned w"
  "shell_calls (print_err w l) = shell_calls w"
  "out (print_err w l) = out w"
  "err (print_err w l) = err w @ [l]"
  "err (show_prompt w p) = err w"
  by (simp_all add: print_err_def show_prompt_def)

lemma handle_forward:
  assumes "\<not> startswith raw '':''" "\<not> startswith raw ''!''"
    and "shlex_split (expand_vars raw vm) = Inr args"
  shows "handle_command ev raw base_cmd base_args vm w =
    (let full = [base_cmd] @ base_args @ args;
         w1 = w\<lparr>spawned := spawned w @ [full]\<rparr>
     in case popen ev w full of
          Exited rc \<Rightarrow>
            (Normal, vm,
             if rc \<noteq> 0
             then print_err w1 (''['' @ basename base_cmd @ ''] exited with code '' @ str_int rc)
             else w1)
        | File_not_found \<Rightarrow> (Break, vm, print_err w1 (''Command not found: '' @ base_cmd))
        | Spawn_error msg \<Rightarrow> (Normal, vm, print_err w1 msg))"
  using assms by (simp add: handle_command_def)

text \<open>
  Claim C2.  A forwarded line (one that starts with neither \<open>:\<close> nor \<open>!\<close>) whose
  substituted text tokenizes into \<open>args\<close> hands exactly the argument vector
  \<open>[base_cmd] + base_args + args\<close> to the process service, once.  In particular the
  line \<open>status\<close> with base command \<open>git\<close> and no base arguments spawns
  \<open>["git", "status"]\<close>, whatever the store holds.
\<close>

theorem forward_spawns_full_invocation:
  "(\<not> startswith raw '':'' \<and> \<not> startswith raw ''!''
      \<and> shlex_split (expand_vars raw vm) = Inr args
    \<longrightarrow> spawned (snd (snd (handle_command ev raw base_cmd base_args vm w)))
          = spawned w @ [[base_cmd] @ base_args @ args])
   \<and> spawned (snd (snd (handle_command ev ''status'' ''git'' [] vm w)))
       = spawned w @ [[''git'', ''status'']]"
proof (intro conjI impI)
  assume a: "\<not> startswith raw '':'' \<and> \<not> startswith raw ''!''
      \<and> shlex_split (expand_vars raw vm) = Inr args"
  then show "spawned (snd (snd (handle_command ev raw base_cmd base_args vm w)))
          = spawned w @ [[base_cmd] @ base_args @ args]"
    by (simp add: handle_forward world_fields Let_def split: popen_result.splits)
next
  have "\<not> startswith ''status'' '':''" "\<not> startswith ''status'' ''!''"
    by (simp_all add: startswith_def)
  moreover have "shlex_split (expand_vars ''status'' vm) = Inr [''status'']"
    by (simp add: expand_vars_status shlex_split_status)
  ultimately show "spawned (snd (snd (handle_command ev ''status'' ''git'' [] vm w)))
       = spawned w @ [[''git'', ''status'']]"
    by (simp add: handle_forward world_fields Let_def split: popen_result.splits)
qed

theorem forward_spawns_full_invocation_witness:
  "\<not> startswith ''log -1 ${rev}'' '':'' \<and> \<not> startswith ''log -1 ${rev}'' ''!''
   \<and> shlex_split (expand_vars ''log -1 ${rev}'' [(''rev'', ''HEAD~2'')]) = Inr [''log'', ''-1'', ''HEAD~2'']
   \<and> spawned (snd (snd (handle_command (fixed_env True (Exited 0)) ''log -1 ${rev}'' ''git''
         [''--no-pager''] [(''rev'', ''HEAD~2'')] (fresh_world ''/'' []))))
       = [[''git'', ''--no-pager'', ''log'', ''-1'', ''HEAD~2'']]"
proof -
  have e: "expand_vars ''log -1 ${rev}'' [(''rev'', ''HEAD~2'')] = ''log -1 HEAD~2''"
    by (simp add: dict_get_def is_ident_start_def is_ident_char_def)
  have t: "shlex_split ''log -1 HEAD~2'' = Inr [''log'', ''-1'', ''HEAD~2'']"
    by (simp add: shlex_split_def shlex_tokens.simps shlex_whitespace_def shlex_quote_def)
  have s: "\<not> startswith ''log -1 ${rev}'' '':''" "\<not> startswith ''log -1 ${rev}'' ''!''"
    by (simp_all add: startswith_def)
  from forward_spawns_full_invocation [of "''log -1 ${rev}''" "[(''rev'', ''HEAD~2'')]"
      "[''log'', ''-1'', ''HEAD~2'']" "fixed_env True (Exited 0)" "''git''" "[''--no-pager'']"
      "fresh_world ''/'' []"] e t s
  show ?thesis by (simp add: fresh_world_def)
qed

lemma read_raw_one_line:
  "\<not> endswith l [BSLASH] \<Longrightarrow> read_raw p c w (l # rest) = (show_prompt w p, Some (strip l, rest))"
  by (simp add: read_raw_def)

lemma repl_loop_one_line:
  assumes "\<not> endswith l [BSLASH]" "strip l \<noteq> []"
  shows "repl_loop ev b a vm w (l # rest) =
    (case handle_command ev (strip l) b a vm (show_prompt w (prompt b)) of
       (r, vm', w2) \<Rightarrow> if r = Break then (vm', w2, rest) else repl_loop ev b a vm' w2 rest)"
  using assms by (subst repl_loop.simps) (simp add: read_raw_one_line)

text \<open>
  Claim C3.  For a forwarded line that tokenizes: when the spawn fails because the
  executable is not found, the handler reports \<open>Command not found\<close> on the error
  stream and returns \<open>Break\<close>, and the loop that read the line stops there, leaving
  the lines after it unread; when the child exits with a non-zero status, the status
  is reported on the error stream, the handler returns \<open>None\<close> (not \<open>Break\<close>) and
  the loop goes on with the next line.
\<close>

theorem forward_spawn_failures:
  assumes fwd: "\<not> startswith raw '':''" "\<not> startswith raw ''!''"
    and tok: "shlex_split (expand_vars raw vm) = Inr args"
  shows
   "(popen ev w ([base_cmd] @ base_args @ args) = File_not_found \<longrightarrow>
       fst (handle_command ev raw base_cmd base_args vm w) = Break
       \<and> err (snd (snd (handle_command ev raw base_cmd base_args vm w)))
           = err w @ [''Command not found: '' @ base_cmd])
    \<and> (popen ev w ([base_cmd] @ base_args @ args) = Exited rc \<and> rc \<noteq> 0 \<longrightarrow>
       fst (handle_command ev raw base_cmd base_args vm w) = Normal
       \<and> err (snd (snd (handle_command ev raw base_cmd base_args vm w)))
           = err w @ [''['' @ basename base_cmd @ ''] exited with code '' @ str_int rc])
    \<and> (\<not> endswith l [BSLASH] \<and> strip l = raw \<and> raw \<noteq> []
        \<and> popen ev (show_prompt w (prompt base_cmd)) ([base_cmd] @ base_args @ args)
            = File_not_found \<longrightarrow>
       snd (snd (repl_loop ev base_cmd base_args vm w (l # rest))) = rest
       \<and> err (fst (snd (repl_loop ev base_cmd base_args vm w (l # rest))))
           = err w @ [''Command not found: '' @ base_cmd])
    \<and> (\<not> endswith l [BSLASH] \<and> strip l = raw \<and> raw \<noteq> []
        \<and> popen ev (show_prompt w (prompt base_cmd)) ([base_cmd] @ base_args @ args)
            = Exited rc \<and> rc \<noteq> 0 \<longrightarrow>
       repl_loop ev base_cmd base_args vm w (l # rest)
         = repl_loop ev base_cmd base_args vm
             (snd (snd (handle_command ev raw base_cmd base_args vm
                          (show_prompt w (prompt base_cmd))))) rest)"
proof -
  note h = handle_forward [OF fwd tok]
  have 1: "popen ev w ([base_cmd] @ base_args @ args) = File_not_found \<longrightarrow>
       fst (handle_command ev raw base_cmd base_args vm w) = Break
       \<and> err (snd (snd (handle_command ev raw base_cmd base_args vm w)))
           = err w @ [''Command not found: '' @ base_cmd]"
    by (simp add: h world_fields)
  have 2: "popen ev w ([base_cmd] @ base_args @ args) = Exited rc \<and> rc \<noteq> 0 \<longrightarrow>
       fst (handle_command ev raw base_cmd base_args vm w) = Normal
       \<and> err (snd (snd (handle_command ev raw base_cmd base_args vm w)))
           = err w @ [''['' @ basename base_cmd @ ''] exited with code '' @ str_int rc]"
    by (simp add: h world_fields)
  have 3: "\<not> endswith l [BSLASH] \<and> strip l = raw \<and> raw \<noteq> []
        \<and> popen ev (show_prompt w (prompt base_cmd)) ([base_cmd] @ base_args @ args)
            = File_not_found \<longrightarrow>
       snd (snd (repl_loop ev base_cmd base_args vm w (l # rest))) = rest
       \<and> err (fst (snd (repl_loop ev base_cmd base_args vm w (l # rest))))
           = err w @ [''Command not found: '' @ base_cmd]"
    by (auto simp: repl_loop_one_line h world_fields)
  have 4: "\<not> endswith l [BSLASH] \<and> strip l = raw \<and> raw \<noteq> []
        \<and> popen ev (show_prompt w (prompt base_cmd)) ([base_cmd] @ base_args @ args)
            = Exited rc \<and> rc \<noteq> 0 \<longrightarrow>
       repl_loop ev base_cmd base_args vm w (l # rest)
         = repl_loop ev base_cmd base_args vm
             (snd (snd (handle_command ev raw base_cmd base_args vm
                          (show_prompt w (prompt base_cmd))))) rest"
    by (auto simp: repl_loop_one_line h world_fields)
  from 1 2 3 4 show ?thesis by blast
qed

theorem forward_spawn_failures_witness:
  "fst (handle_command (fixed_env True File_not_found) ''status'' ''/nonexistent-binary'' [] []
          (fresh_world ''/'' [])) = Break
   \<and> err (snd (snd (handle_command (fixed_env True File_not_found) ''status''
          ''/nonexistent-binary'' [] [] (fresh_world ''/'' []))))
       = [''Command not found: /nonexistent-binary'']
   \<and> snd (snd (repl_loop (fixed_env True File_not_found) ''/nonexistent-binary'' [] []
          (fresh_world ''/'' []) [''status'', ''log''])) = [''log'']
   \<and> fst (handle_command (fixed_env True (Exited 3)) ''status'' ''git'' [] []
          (fresh_world ''/'' [])) = Normal
   \<and> err (snd (snd (handle_command (fixed_env True (Exited 3)) ''status'' ''git'' [] []
          (fresh_world ''/'' [])))) = [''[git] exited with code 3'']"
proof -
  have s: "\<not> startswith ''status'' '':''" "\<not> startswith ''status'' ''!''"
    "\<not> endswith ''status'' [BSLASH]" "strip ''status'' = ''status''"
    by (simp_all add: startswith_def endswith_def strip_def is_space_def)
  have t: "shlex_split (expand_vars ''status'' []) = Inr [''status'']"
    by (simp add: expand_vars_status shlex_split_status)
  have p: "\<And>w argv r. popen (fixed_env True r) w argv = r"
    by (simp add: fixed_env_def)
  have b: "basename ''git'' = ''git''" "str_int 3 = ''3''"
    by (simp_all add: basename_def str_int_def str_nat.simps)
  have e: "err (fresh_world ''/'' []) = []"
    by (simp add: fresh_world_def)
  from forward_spawn_failures [OF s(1,2) t, where ev = "fixed_env True File_not_found"
      and w = "fresh_world ''/'' []" and base_cmd = "''/nonexistent-binary''"
      and base_args = "[]" and l = "''status''" and rest = "[''log'']" and rc = 3]
    forward_spawn_failures [OF s(1,2) t, where ev = "fixed_env True (Exited 3)"
      and w = "fresh_world ''/'' []" and base_cmd = "''git''"
      and base_args = "[]" and l = "''status''" and rest = "[''log'']" and rc = 3]
  show ?thesis by (simp add: s p b e)
qed

section \<open>Tokenizing a line with an unterminated quote\<close>

lemma read_token_open_quote:
  "q \<notin> set b \<Longrightarrow> (q = DQUOTE \<longrightarrow> BSLASH \<notin> set b) \<Longrightarrow>
   read_token (St_quote q) es quoted tok b = Inl No_closing_quotation"
  by (induction b arbitrary: quoted tok) auto

lemma quote_not_blank:
  "shlex_quote q \<Longrightarrow> \<not> shlex_whitespace q \<and> q \<noteq> BSLASH"
  by (auto simp: shlex_quote_def shlex_whitespace_def)

lemma read_token_before_open_quote:
  assumes "\<forall>c\<in>set a. \<not> shlex_quote c \<and> c \<noteq> BSLASH" "shlex_quote q" "q \<notin> set b"
    "q = DQUOTE \<longrightarrow> BSLASH \<notin> set b" "st = St_space \<or> st = St_word"
  shows "read_token st es quoted tok (a @ q # b) = Inl No_closing_quotation
    \<or> (\<exists>t q' a'. read_token st es quoted tok (a @ q # b) = Inr (t, q', St_space, a' @ q # b)
          \<and> (q' \<or> t \<noteq> []) \<and> length a' < length a \<and> set a' \<subseteq> set a)"
  using assms
proof (induction a arbitrary: st quoted tok)
  case Nil
  from quote_not_blank [OF Nil.prems(2)] Nil.prems(2,5)
  have "read_token st es quoted tok ([] @ q # b) = read_token (St_quote q) es quoted tok b"
    by auto
  with read_token_open_quote [OF Nil.prems(3,4)] show ?case by simp
next
  case (Cons c cs)
  from Cons.prems(1) have cs: "\<forall>c\<in>set cs. \<not> shlex_quote c \<and> c \<noteq> BSLASH" by simp
  have IH: "read_token st es quoted tok (cs @ q # b) = Inl No_closing_quotation
    \<or> (\<exists>t q' a'. read_token st es quoted tok (cs @ q # b) = Inr (t, q', St_space, a' @ q # b)
          \<and> (q' \<or> t \<noteq> []) \<and> length a' < length (c # cs) \<and> set a' \<subseteq> set (c # cs))"
    if "st = St_space \<or> st = St_word" for st quoted tok
  proof -
    from Cons.IH [OF cs Cons.prems(2,3,4) that, of quoted tok]
    show ?thesis
    proof
      assume "read_token st es quoted tok (cs @ q # b) = Inl No_closing_quotation"
      then show ?thesis by simp
    next
      assume "\<exists>t q' a'. read_token st es quoted tok (cs @ q # b) = Inr (t, q', St_space, a' @ q # b)
          \<and> (q' \<or> t \<noteq> []) \<and> length a' < length cs \<and> set a' \<subseteq> set cs"
      then obtain t q' a' where "read_token st es quoted tok (cs @ q # b) = Inr (t, q', St_space, a' @ q # b)"
        "q' \<or> t \<noteq> []" "length a' < length cs" "set a' \<subseteq> set cs" by blast
      then have "read_token st es quoted tok (cs @ q # b) = Inr (t, q', St_space, a' @ q # b)
          \<and> (q' \<or> t \<noteq> []) \<and> length a' < length (c # cs) \<and> set a' \<subseteq> set (c # cs)"
        by auto
      then show ?thesis by blast
    qed
  qed
  from Cons.prems(1) have c: "\<not> shlex_quote c" "c \<noteq> BSLASH" by simp_all
  show ?case
  proof (cases "shlex_whitespace c")
    case True
    show ?thesis
    proof (cases "tok \<noteq> [] \<or> quoted")
      case True
      with \<open>shlex_whitespace c\<close> Cons.prems(5) show ?thesis by auto
    next
      case False
      with \<open>shlex_whitespace c\<close> Cons.prems(5) IH [of St_space quoted tok] show ?thesis by auto
    qed
  next
    case False
    from Cons.prems(5) show ?thesis
    proof
      assume "st = St_space"
      with False c IH [of St_word quoted "[c]"] show ?thesis by simp
    next
      assume "st = St_word"
      with False c IH [of St_word quoted "tok @ [c]"] show ?thesis by simp
    qed
  qed
qed

lemma shlex_tokens_open_quote:
  assumes "shlex_quote q" "q \<notin> set b" "q = DQUOTE \<longrightarrow> BSLASH \<notin> set b"
  shows "\<forall>c\<in>set a. \<not> shlex_quote c \<and> c \<noteq> BSLASH \<Longrightarrow>
    shlex_tokens St_space (a @ q # b) = Inl No_closing_quotation"
proof (induction a rule: length_induct)
  case (1 a)
  have "St_space = St_space \<or> St_space = St_word" by simp
  from read_token_before_open_quote [OF "1.prems" assms this, of St_space False "[]"]
  show ?case
  proof
    assume "read_token St_space St_space False [] (a @ q # b) = Inl No_closing_quotation"
    then show ?thesis by (subst shlex_tokens.simps) simp
  next
    assume "\<exists>t q' a'. read_token St_space St_space False [] (a @ q # b)
        = Inr (t, q', St_space, a' @ q # b) \<and> (q' \<or> t \<noteq> []) \<and> length a' < length a
          \<and> set a' \<subseteq> set a"
    then obtain t q' a' where r: "read_token St_space St_space False [] (a @ q # b)
        = Inr (t, q', St_space, a' @ q # b)" and ne: "q' \<or> t \<noteq> []"
      and l: "length a' < length a" and s: "set a' \<subseteq> set a" by blast
    from s "1.prems" have "\<forall>c\<in>set a'. \<not> shlex_quote c \<and> c \<noteq> BSLASH" by blast
    with "1.IH" l have "shlex_tokens St_space (a' @ q # b) = Inl No_closing_quotation" by blast
    with r ne show ?thesis by (subst shlex_tokens.simps) auto
  qed
qed

lemma shlex_split_open_quote:
  assumes "\<forall>c\<in>set a. \<not> shlex_quote c \<and> c \<noteq> BSLASH" "shlex_quote q" "q \<notin> set b"
    "q = DQUOTE \<longrightarrow> BSLASH \<notin> set b"
  shows "shlex_split (a @ q # b) = Inl No_closing_quotation"
  unfolding shlex_split_def using shlex_tokens_open_quote [OF assms(2,3,4) assms(1)] .

text \<open>
  Claim C4.  When the tokenizer rejects the substituted text of a forwarded line, the
  handler reports the parse error on the error stream and returns \<open>Continue\<close>; the
  store is unchanged and nothing is spawned or run.  The tokenizer rejects every text
  with an unterminated quote: a quote character that follows text free of quotes and
  backslashes and is not closed in the rest of the line.  The line \<open>echo "hi\<close> is
  such a text.
\<close>

theorem malformed_quoting_is_reported:
  "(\<not> startswith raw '':'' \<and> \<not> startswith raw ''!''
      \<and> shlex_split (expand_vars raw vm) = Inl e \<longrightarrow>
      handle_command ev raw base_cmd base_args vm w
        = (Continue, vm, print_err w (''parse error: '' @ error_text e))
      \<and> spawned (snd (snd (handle_command ev raw base_cmd base_args vm w))) = spawned w
      \<and> shell_calls (snd (snd (handle_command ev raw base_cmd base_args vm w)))
          = shell_calls w)
   \<and> ((\<forall>c\<in>set a. \<not> shlex_quote c \<and> c \<noteq> BSLASH) \<and> shlex_quote q \<and> q \<notin> set b
        \<and> (q = DQUOTE \<longrightarrow> BSLASH \<notin> set b) \<longrightarrow>
      shlex_split (a @ q # b) = Inl No_closing_quotation)
   \<and> shlex_split (expand_vars (''echo '' @ [DQUOTE] @ ''hi'') vm) = Inl No_closing_quotation
   \<and> handle_command ev (''echo '' @ [DQUOTE] @ ''hi'') base_cmd base_args vm w
        = (Continue, vm, print_err w ''parse error: No closing quotation'')"
proof -
  have 1: "\<not> startswith raw '':'' \<and> \<not> startswith raw ''!''
      \<and> shlex_split (expand_vars raw vm) = Inl e \<longrightarrow>
      handle_command ev raw base_cmd base_args vm w
        = (Continue, vm, print_err w (''parse error: '' @ error_text e))
      \<and> spawned (snd (snd (handle_command ev raw base_cmd base_args vm w))) = spawned w
      \<and> shell_calls (snd (snd (handle_command ev raw base_cmd base_args vm w)))
          = shell_calls w"
    by (simp add: handle_command_def world_fields)
  have 2: "(\<forall>c\<in>set a. \<not> shlex_quote c \<and> c \<noteq> BSLASH) \<and> shlex_quote q \<and> q \<notin> set b
        \<and> (q = DQUOTE \<longrightarrow> BSLASH \<notin> set b) \<longrightarrow>
      shlex_split (a @ q # b) = Inl No_closing_quotation"
    using shlex_split_open_quote [of a q b] by blast
  have "expand_vars (''echo '' @ [DQUOTE] @ ''hi'') vm = ''echo '' @ [DQUOTE] @ ''hi''"
    by (rule expand_vars_no_reference) (simp add: startswith_def)
  moreover have "shlex_split (''echo '' @ [DQUOTE] @ ''hi'') = Inl No_closing_quotation"
    by (simp add: shlex_split_def shlex_tokens.simps shlex_whitespace_def shlex_quote_def)
  ultimately have 3: "shlex_split (expand_vars (''echo '' @ [DQUOTE] @ ''hi'') vm)
      = Inl No_closing_quotation"
    by simp
  have "\<not> startswith (''echo '' @ [DQUOTE] @ ''hi'') '':''"
    "\<not> startswith (''echo '' @ [DQUOTE] @ ''hi'') ''!''"
    by (simp_all add: startswith_def)
  with 3 have 4: "handle_command ev (''echo '' @ [DQUOTE] @ ''hi'') base_cmd base_args vm w
        = (Continue, vm, print_err w ''parse error: No closing quotation'')"
    by (simp add: handle_command_def)
  from 1 2 3 4 show ?thesis by blast
qed

theorem malformed_quoting_is_reported_witness:
  "shlex_split (expand_vars ''commit -m 'fix ${what}'' [(''what'', ''the parser'')])
     = Inl No_closing_quotation
   \<and> handle_command (fixed_env True (Exited 0)) ''commit -m 'fix ${what}'' ''git'' []
       [(''what'', ''the parser'')] (fresh_world ''/'' [])
     = (Continue, [(''what'', ''the parser'')],
        (fresh_world ''/'' [])\<lparr>err := [''parse error: No closing quotation'']\<rparr>)
   \<and> spawned (snd (snd (handle_command (fixed_env True (Exited 0)) ''commit -m 'fix ${what}''
       ''git'' [] [(''what'', ''the parser'')] (fresh_world ''/'' [])))) = []"
proof -
  have e: "expand_vars ''commit -m 'fix ${what}'' [(''what'', ''the parser'')]
      = ''commit -m '' @ SQUOTE # ''fix the parser''"
    by (simp add: dict_get_def is_ident_start_def is_ident_char_def)
  have q: "(\<forall>c\<in>set ''commit -m ''. \<not> shlex_quote c \<and> c \<noteq> BSLASH) \<and> shlex_quote SQUOTE
      \<and> SQUOTE \<notin> set ''fix the parser'' \<and> (SQUOTE = DQUOTE \<longrightarrow> BSLASH \<notin> set ''fix the parser'')"
    by (simp add: shlex_quote_def)
  have s: "\<not> startswith ''commit -m 'fix ${what}'' '':''"
    "\<not> startswith ''commit -m 'fix ${what}'' ''!''"
    by (simp_all add: startswith_def)
  from malformed_quoting_is_reported [of "''commit -m 'fix ${what}''"
      "[(''what'', ''the parser'')]" No_closing_quotation "fixed_env True (Exited 0)" "''git''"
      "[]" "fresh_world ''/'' []" "''commit -m ''" SQUOTE "''fix the parser''"] e q s
  show ?thesis by (simp add: print_err_def fresh_world_def)
qed

section \<open>The session loop: properties\<close>

lemma endswith_snoc: "endswith (s @ [c]) [c]"
  by (simp add: endswith_def)

lemma read_line_parts_continued:
  "\<not> endswith final [BSLASH] \<Longrightarrow>
   snd (read_line_parts p c parts w (map (\<lambda>s. s @ [BSLASH]) segs @ final # rest))
     = Some (parts @ segs @ [final], rest)"
  by (induction segs arbitrary: parts w) (simp_all add: endswith_snoc Let_def)

lemma read_raw_continued:
  "\<not> endswith final [BSLASH] \<Longrightarrow>
   snd (read_raw p c w (map (\<lambda>s. s @ [BSLASH]) segs @ final # rest))
     = Some (strip (concat segs @ final), rest)"
  using read_line_parts_continued [of final p c "[]" w segs rest]
  by (auto simp: read_raw_def split: prod.splits option.splits)

lemma repl_loop_dispatch:
  assumes "read_raw (prompt b) cont_prompt w ins = (w1, Some (raw, ins'))"
  shows "repl_loop ev b a vm w ins =
    (if raw = [] then repl_loop ev b a vm w1 ins'
     else case handle_command ev raw b a vm w1 of
            (r, vm', w2) \<Rightarrow> if r = Break then (vm', w2, ins') else repl_loop ev b a vm' w2 ins')"
  using assms by (subst repl_loop.simps) simp

text \<open>
  Claim C5.  When every line but the last ends with a backslash, the loop removes that
  backslash from each continued line, joins the segments and the last line in order
  with nothing between them and strips the result; this is the raw command line the
  session loop goes on with (skipped when empty, handed to \<open>handle_command\<close>
  otherwise).  In particular the line \<open>foo\<close> with a trailing backslash, followed
  by \<open>bar\<close>, gives \<open>foobar\<close>.
\<close>

theorem continuation_lines_joined:
  "(\<not> endswith final [BSLASH] \<longrightarrow>
      snd (read_raw p c w (map (\<lambda>s. s @ [BSLASH]) segs @ final # rest))
        = Some (strip (concat segs @ final), rest)
      \<and> repl_loop ev b a vm w (map (\<lambda>s. s @ [BSLASH]) segs @ final # rest)
        = (let raw = strip (concat segs @ final);
               w1 = fst (read_raw (prompt b) cont_prompt w
                          (map (\<lambda>s. s @ [BSLASH]) segs @ final # rest))
           in if raw = [] then repl_loop ev b a vm w1 rest
              else case handle_command ev raw b a vm w1 of
                     (r, vm', w2) \<Rightarrow>
                       if r = Break then (vm', w2, rest) else repl_loop ev b a vm' w2 rest))
   \<and> snd (read_raw p c w [''foo'' @ [BSLASH], ''bar'']) = Some (''foobar'', [])"
proof (intro conjI impI)
  assume f: "\<not> endswith final [BSLASH]"
  then show "snd (read_raw p c w (map (\<lambda>s. s @ [BSLASH]) segs @ final # rest))
        = Some (strip (concat segs @ final), rest)"
    by (rule read_raw_continued)
  from read_raw_continued [OF f, of "prompt b" cont_prompt w segs rest]
  have "read_raw (prompt b) cont_prompt w (map (\<lambda>s. s @ [BSLASH]) segs @ final # rest)
      = (fst (read_raw (prompt b) cont_prompt w (map (\<lambda>s. s @ [BSLASH]) segs @ final # rest)),
         Some (strip (concat segs @ final), rest))"
    by (metis prod.collapse)
  from repl_loop_dispatch [OF this]
  show "repl_loop ev b a vm w (map (\<lambda>s. s @ [BSLASH]) segs @ final # rest)
        = (let raw = strip (concat segs @ final);
               w1 = fst (read_raw (prompt b) cont_prompt w
                          (map (\<lambda>s. s @ [BSLASH]) segs @ final # rest))
           in if raw = [] then repl_loop ev b a vm w1 rest
              else case handle_command ev raw b a vm w1 of
                     (r, vm', w2) \<Rightarrow>
                       if r = Break then (vm', w2, rest) else repl_loop ev b a vm' w2 rest)"
    by (simp add: Let_def)
next
  show "snd (read_raw p c w [''foo'' @ [BSLASH], ''bar'']) = Some (''foobar'', [])"
    by (simp add: read_raw_def endswith_def strip_def is_space_def Let_def)
qed

theorem continuation_lines_joined_witness:
  "\<not> endswith ''  -m wip  '' [BSLASH]
   \<and> snd (read_raw (prompt ''git'') cont_prompt (fresh_world ''/'' [])
        [''  com'' @ [BSLASH], ''mit '' @ [BSLASH, BSLASH], ''  -m wip  '', ''status''])
      = Some (''commit '' @ [BSLASH] @ ''  -m wip'', [''status''])"
proof -
  have f: "\<not> endswith ''  -m wip  '' [BSLASH]"
    by (simp add: endswith_def)
  have s: "strip (''  com'' @ ''mit '' @ [BSLASH] @ ''  -m wip  '')
      = ''commit '' @ [BSLASH] @ ''  -m wip''"
    by (simp add: strip_def is_space_def)
  from continuation_lines_joined [of "''  -m wip  ''" "prompt ''git''" cont_prompt
      "fresh_world ''/'' []" "[''  com'', ''mit '' @ [BSLASH]]" "[''status'']"] f s
  show ?thesis by simp
qed

section \<open>Built-in commands: properties\<close>

lemma set_is_no_other_builtin:
  "startswith cmd ''set '' \<Longrightarrow>
   cmd \<notin> set [''q'', ''quit'', ''exit''] \<and> cmd \<noteq> ''help''"
  by (auto simp: startswith_def)

lemma split_at_first:
  "x \<notin> set k \<Longrightarrow>
   takeWhile (\<lambda>c. c \<noteq> x) (k @ x # v) = k \<and> dropWhile (\<lambda>c. c \<noteq> x) (k @ x # v) = x # v"
  by (induction k) auto

lemma handle_set_assign:
  assumes "startswith raw '':''" "startswith (strip (drop 1 raw)) ''set ''"
    and "strip (drop 4 (strip (drop 1 raw))) = k @ CHR ''='' # v" "CHR ''='' \<notin> set k"
  shows "handle_command ev raw b a vm w = (Continue, AList.update (strip k) (strip v) vm, w)"
proof -
  from split_at_first [OF assms(4)]
  have "takeWhile (\<lambda>c. c \<noteq> CHR ''='') (k @ CHR ''='' # v) = k"
    "dropWhile (\<lambda>c. c \<noteq> CHR ''='') (k @ CHR ''='' # v) = CHR ''='' # v"
    by simp_all
  with assms(1,3) set_is_no_other_builtin [OF assms(2)] assms(2) show ?thesis
    by (simp add: handle_command_def Let_def)
qed

lemma handle_set_usage:
  assumes "startswith raw '':''" "startswith (strip (drop 1 raw)) ''set ''"
    and "CHR ''='' \<notin> set (strip (drop 4 (strip (drop 1 raw))))"
  shows "handle_command ev raw b a vm w = (Continue, vm, print_err w ''Usage: :set key=value'')"
  using assms(1,3) set_is_no_other_builtin [OF assms(2)] assms(2)
  by (simp add: handle_command_def Let_def)

text \<open>
  Claim C6.  For a built-in line whose command starts with \<open>set \<close>, with \<open>rest\<close> the
  stripped text after it: when \<open>rest\<close> is \<open>k=v\<close> with no \<open>=\<close> in \<open>k\<close> (the split at the
  first \<open>=\<close>), the stripped key is bound to the stripped value, replacing any binding
  the key had and leaving every other key as it was; handling the same line again
  changes nothing further.  Every \<open>rest\<close> that contains \<open>=\<close> is of this form.  When
  \<open>rest\<close> has no \<open>=\<close>, the usage message goes to the error stream and the store is
  unchanged.  The result is \<open>Continue\<close> in both cases.
\<close>

theorem set_builtin:
  assumes "startswith raw '':''" "startswith (strip (drop 1 raw)) ''set ''"
    and "rest = strip (drop 4 (strip (drop 1 raw)))"
  shows
   "(rest = k @ CHR ''='' # v \<and> CHR ''='' \<notin> set k \<longrightarrow>
       handle_command ev raw b a vm w = (Continue, AList.update (strip k) (strip v) vm, w)
       \<and> map_of (fst (snd (handle_command ev raw b a vm w))) (strip k) = Some (strip v)
       \<and> (k' \<noteq> strip k \<longrightarrow>
             map_of (fst (snd (handle_command ev raw b a vm w))) k' = map_of vm k')
       \<and> handle_command ev raw b a (fst (snd (handle_command ev raw b a vm w))) w
           = handle_command ev raw b a vm w)
    \<and> (CHR ''='' \<notin> set rest \<longrightarrow>
       handle_command ev raw b a vm w
         = (Continue, vm, print_err w ''Usage: :set key=value''))
    \<and> (CHR ''='' \<in> set rest \<longrightarrow>
       (\<exists>k1 v1. rest = k1 @ CHR ''='' # v1 \<and> CHR ''='' \<notin> set k1))"
proof (intro conjI impI)
  assume r: "rest = k @ CHR ''='' # v \<and> CHR ''='' \<notin> set k"
  with assms have h: "\<And>vm. handle_command ev raw b a vm w
      = (Continue, AList.update (strip k) (strip v) vm, w)"
    by (simp add: handle_set_assign)
  show "handle_command ev raw b a vm w = (Continue, AList.update (strip k) (strip v) vm, w)"
    by (rule h)
  show "map_of (fst (snd (handle_command ev raw b a vm w))) (strip k) = Some (strip v)"
    by (simp add: h update_conv')
  show "map_of (fst (snd (handle_command ev raw b a vm w))) k' = map_of vm k'"
    if "k' \<noteq> strip k"
    using that by (simp add: h update_conv')
  show "handle_command ev raw b a (fst (snd (handle_command ev raw b a vm w))) w
      = handle_command ev raw b a vm w"
    by (simp add: h world_fields)
next
  assume "CHR ''='' \<notin> set rest"
  with assms show "handle_command ev raw b a vm w
      = (Continue, vm, print_err w ''Usage: :set key=value'')"
    by (simp add: handle_set_usage)
next
  assume "CHR ''='' \<in> set rest"
  then show "\<exists>k1 v1. rest = k1 @ CHR ''='' # v1 \<and> CHR ''='' \<notin> set k1"
    by (rule split_list_first)
qed

theorem set_builtin_witness:
  "handle_command (fixed_env True (Exited 0)) '':set  k = a=b '' ''git'' []
     [(''j'', ''0''), (''k'', ''1'')] (fresh_world ''/'' [])
     = (Continue, [(''j'', ''0''), (''k'', ''a=b'')], fresh_world ''/'' [])
   \<and> handle_command (fixed_env True (Exited 0)) '':set  k = a=b '' ''git'' []
     [(''j'', ''0''), (''k'', ''a=b'')] (fresh_world ''/'' [])
     = (Continue, [(''j'', ''0''), (''k'', ''a=b'')], fresh_world ''/'' [])
   \<and> handle_command (fixed_env True (Exited 0)) '':set k'' ''git'' []
     [(''j'', ''0''), (''k'', ''1'')] (fresh_world ''/'' [])
     = (Continue, [(''j'', ''0''), (''k'', ''1'')],
        (fresh_world ''/'' [])\<lparr>err := [''Usage: :set key=value'']\<rparr>)"
proof -
  have s1: "startswith '':set  k = a=b '' '':''" "startswith '':set k'' '':''"
    by (simp_all add: startswith_def)
  have s2: "startswith (strip (drop 1 '':set  k = a=b '')) ''set ''"
    "startswith (strip (drop 1 '':set k'')) ''set ''"
    by (simp_all add: startswith_def strip_def is_space_def)
  have s3: "''k '' @ CHR ''='' # '' a=b'' = strip (drop 4 (strip (drop 1 '':set  k = a=b '')))"
    "''k'' = strip (drop 4 (strip (drop 1 '':set k'')))"
    by (simp_all add: strip_def is_space_def)
  have s4: "strip ''k '' = ''k''" "strip '' a=b'' = ''a=b''"
    by (simp_all add: strip_def is_space_def)
  have n: "''k '' @ CHR ''='' # '' a=b'' = ''k '' @ CHR ''='' # '' a=b'' \<and> CHR ''='' \<notin> set ''k ''"
    and u: "CHR ''='' \<notin> set ''k''"
    by simp_all
  from set_builtin [OF s1(1) s2(1) s3(1), where k = "''k ''" and v = "'' a=b''"
      and ev = "fixed_env True (Exited 0)" and b = "''git''" and a = "[]"
      and vm = "[(''j'', ''0''), (''k'', ''1'')]" and w = "fresh_world ''/'' []" and k' = "''j''",
      THEN conjunct1, THEN mp, OF n, THEN conjunct1]
  have 1: "handle_command (fixed_env True (Exited 0)) '':set  k = a=b '' ''git'' []
     [(''j'', ''0''), (''k'', ''1'')] (fresh_world ''/'' [])
     = (Continue, [(''j'', ''0''), (''k'', ''a=b'')], fresh_world ''/'' [])"
    unfolding s4 by simp
  from set_builtin [OF s1(1) s2(1) s3(1), where k = "''k ''" and v = "'' a=b''"
      and ev = "fixed_env True (Exited 0)" and b = "''git''" and a = "[]"
      and vm = "[(''j'', ''0''), (''k'', ''1'')]" and w = "fresh_world ''/'' []" and k' = "''j''",
      THEN conjunct1, THEN mp, OF n, THEN conjunct2, THEN conjunct2, THEN conjunct2]
  have 2: "handle_command (fixed_env True (Exited 0)) '':set  k = a=b '' ''git'' []
     [(''j'', ''0''), (''k'', ''a=b'')] (fresh_world ''/'' [])
     = (Continue, [(''j'', ''0''), (''k'', ''a=b'')], fresh_world ''/'' [])"
    unfolding 1 by simp
  from set_builtin [OF s1(2) s2(2) s3(2), where k = "''k ''" and v = "'' a=b''"
      and ev = "fixed_env True (Exited 0)" and b = "''git''" and a = "[]"
      and vm = "[(''j'', ''0''), (''k'', ''1'')]" and w = "fresh_world ''/'' []" and k' = "''j''",
      THEN conjunct2, THEN conjunct1, THEN mp, OF u]
  have 3: "handle_command (fixed_env True (Exited 0)) '':set k'' ''git'' []
     [(''j'', ''0''), (''k'', ''1'')] (fresh_world ''/'' [])
     = (Continue, [(''j'', ''0''), (''k'', ''1'')],
        (fresh_world ''/'' [])\<lparr>err := [''Usage: :set key=value'']\<rparr>)"
    by (simp add: print_err_def fresh_world_def)
  from 1 2 3 show ?thesis by blast
qed

lemma builtin_outcome:
  "startswith raw '':'' \<Longrightarrow>
   fst (handle_command ev raw b a vm w)
     = (if strip (drop 1 raw) \<in> set [''q'', ''quit'', ''exit''] then Break else Continue)"
  by (simp add: handle_command_def Let_def split: sum.splits)





lemma foldl_print_out: "foldl print_out w ls = w\<lparr>out := out w @ ls\<rparr>"
  by (induction ls arbitrary: w) (simp_all add: print_out_def)

lemma history_items: "map (get_history_item w) [1 ..< length (history w) + 1] = history w"
  by (rule nth_equalityI) (auto simp: get_history_item_def nth_append simp del: upt_Suc)

lemma print_history:
  "foldl print_out w (map (get_history_item w) [1 ..< get_current_history_length w + 1])
     = w\<lparr>out := out w @ history w\<rparr>"
  unfolding get_current_history_length_def history_items foldl_print_out ..

text \<open>
  Claim C8, as the code has it.  With the line-input service active, the built-in
  \<open>history\<close> prints every recorded history entry, one per line and in order (the
  entries are read by their 1-based index), and returns \<open>Continue\<close>.  The printed
  line is the entry itself: no index is written in front of it.
\<close>

theorem history_builtin_prints_entries:
  "have_readline ev \<and> startswith raw '':'' \<and> strip (drop 1 raw) = ''history'' \<longrightarrow>
     handle_command ev raw b a vm w = (Continue, vm, w\<lparr>out := out w @ history w\<rparr>)"
  unfolding handle_command_def print_history by (simp add: startswith_def)

theorem history_builtin_prints_entries_witness:
  "have_readline (fixed_env True (Exited 0)) \<and> startswith '': history '' '':''
   \<and> strip (drop 1 '': history '') = ''history''
   \<and> handle_command (fixed_env True (Exited 0)) '': history '' ''git'' [] []
        (fresh_world ''/'' [''status'', ''log -1''])
      = (Continue, [], (fresh_world ''/'' [''status'', ''log -1''])\<lparr>out := [''status'', ''log -1'']\<rparr>)"
  using history_builtin_prints_entries [of "fixed_env True (Exited 0)" "'': history ''" "''git''"
      "[]" "[]" "fresh_world ''/'' [''status'', ''log -1'']"]
  by (simp add: fixed_env_def startswith_def strip_def is_space_def fresh_world_def)

text \<open>
  Claim C8 as stated says that each printed entry is prefixed with its index.  With the
  history \<open>status\<close>, \<open>log -1\<close> the lines printed are exactly these two entries, and
  neither begins with its index.
\<close>

theorem history_lines_without_index:
  "out (snd (snd (handle_command (fixed_env True (Exited 0)) '':history'' ''git'' [] []
          (fresh_world ''/'' [''status'', ''log -1'']))))
     = [''status'', ''log -1'']
   \<and> \<not> startswith ''status'' (str_nat 1) \<and> \<not> startswith ''log -1'' (str_nat 2)"
  unfolding handle_command_def print_history
  by (simp add: startswith_def strip_def is_space_def fixed_env_def fresh_world_def
        str_nat.simps)

section \<open>The variable store: properties\<close>

lemma set_strip: "set (strip s) \<subseteq> set s"
  by (auto simp: strip_def dest!: set_dropWhileD)

lemma strip_idem: "strip (strip s) = strip s"
proof -
  define t where "t = dropWhile is_space s"
  define u where "u = rev (dropWhile is_space (rev t))"
  have "u @ rev (takeWhile is_space (rev t))
      = rev (takeWhile is_space (rev t) @ dropWhile is_space (rev t))"
    unfolding u_def by (simp only: rev_append)
  also have "\<dots> = t"
    by (simp only: takeWhile_dropWhile_id rev_rev_ident)
  finally have t: "t = u @ rev (takeWhile is_space (rev t))"
    by (rule sym)
  have "u = [] \<or> \<not> is_space (hd u)"
  proof (cases u)
    case Nil
    then show ?thesis by simp
  next
    case (Cons x xs)
    with t have "hd t = hd u" and "t \<noteq> []"
      by (metis hd_append2 list.distinct(1), metis append_is_Nil_conv list.distinct(1))
    moreover from \<open>t \<noteq> []\<close> have "\<not> is_space (hd t)"
      unfolding t_def by (rule hd_dropWhile)
    ultimately show ?thesis by simp
  qed
  then have 1: "dropWhile is_space u = u"
    by (simp only: dropWhile_eq_self_iff)
  have 2: "dropWhile is_space (rev u) = rev u"
    by (simp add: u_def)
  have "strip s = u" by (simp add: strip_def u_def t_def)
  moreover have "strip u = u" by (simp add: strip_def 1 2)
  ultimately show ?thesis by simp
qed

lemma store_inv_update:
  assumes "store_inv vm" "CHR ''='' \<notin> set k"
  shows "store_inv (AList.update (strip k) v vm)"
proof -
  from assms(2) set_strip [of k] have "CHR ''='' \<notin> set (strip k)" by blast
  with assms(1) show ?thesis
    by (auto simp: store_inv_def update_keys list_all_iff strip_idem)
qed

lemma handle_command_store:
  "fst (snd (handle_command ev raw b a vm w)) = vm
   \<or> (\<exists>k v. CHR ''='' \<notin> set k \<and> fst (snd (handle_command ev raw b a vm w))
                = AList.update (strip k) v vm)"
proof (cases "startswith raw '':'' \<and> startswith (strip (drop 1 raw)) ''set ''
    \<and> CHR ''='' \<in> set (strip (drop 4 (strip (drop 1 raw))))")
  case True
  let ?rest = "strip (drop 4 (strip (drop 1 raw)))"
  have "CHR ''='' \<notin> set (takeWhile (\<lambda>c. c \<noteq> CHR ''='') ?rest)"
    by (auto dest: set_takeWhileD)
  moreover from True set_is_no_other_builtin [of "strip (drop 1 raw)"]
  have "fst (snd (handle_command ev raw b a vm w))
      = AList.update (strip (takeWhile (\<lambda>c. c \<noteq> CHR ''='') ?rest))
          (strip (drop 1 (dropWhile (\<lambda>c. c \<noteq> CHR ''='') ?rest))) vm"
    by (simp add: handle_command_def Let_def)
  ultimately show ?thesis by blast
next
  case False
  then have "fst (snd (handle_command ev raw b a vm w)) = vm"
    by (auto simp: handle_command_def Let_def split: sum.splits popen_result.splits)
  then show ?thesis ..
qed

lemma handle_command_store_inv:
  "store_inv vm \<Longrightarrow> store_inv (fst (snd (handle_command ev raw b a vm w)))"
  using handle_command_store [of ev raw b a vm w] by (auto simp: store_inv_update)

lemma repl_loop_store_inv:
  "store_inv vm \<Longrightarrow> store_inv (fst (repl_loop ev b a vm w ins))"
proof (induction ev b a vm w ins rule: repl_loop.induct)
  case (1 ev b a vm w ins)
  obtain w1 r where rr: "read_raw (prompt b) cont_prompt w ins = (w1, r)"
    by (cases "read_raw (prompt b) cont_prompt w ins")
  show ?case
  proof (cases r)
    case None
    with rr "1.prems" show ?thesis by (subst repl_loop.simps) simp
  next
    case (Some ri)
    obtain raw ins' where ri: "ri = (raw, ins')" by (cases ri)
    show ?thesis
    proof (cases "raw = []")
      case True
      with rr Some ri "1.IH"(1) "1.prems" show ?thesis
        by (subst repl_loop.simps) simp
    next
      case False
      obtain res vm' w2 where h: "handle_command ev raw b a vm w1 = (res, vm', w2)"
        by (cases "handle_command ev raw b a vm w1")
      from handle_command_store_inv [OF "1.prems", of ev raw b a w1] h
      have inv': "store_inv vm'" by simp
      show ?thesis
      proof (cases "res = Break")
        case True
        with rr Some ri False h inv' show ?thesis by (subst repl_loop.simps) simp
      next
        case nb: False
        from "1.IH"(2) [OF rr [symmetric] Some ri [symmetric] False h [symmetric] refl nb inv']
        have "store_inv (fst (repl_loop ev b a vm' w2 ins'))" .
        with rr Some ri False h nb show ?thesis by (subst repl_loop.simps) simp
      qed
    qed
  qed
qed

lemma repl_loop_end_of_input:
  "repl_loop ev b a vm w [] = (vm, print_out (show_prompt w (prompt b)) [], [])"
  by (subst repl_loop.simps) (simp add: read_raw_def)

text \<open>
  Claim C9, as the code has it.  The keys of the variable store are unique, and every
  key is a stripped text without \<open>=\<close> (what \<open>:set\<close> finds before the first \<open>=\<close>); the
  key is not checked to be an identifier.  Every call of \<open>handle_command\<close> keeps this
  invariant, and it holds for the store at the end of every session.
\<close>

theorem store_keys_invariant:
  "(store_inv vm \<longrightarrow> store_inv (fst (snd (handle_command ev raw b a vm w))))
   \<and> store_inv (fst (run_repl ev b a w ins))"
proof
  show "store_inv vm \<longrightarrow> store_inv (fst (snd (handle_command ev raw b a vm w)))"
    by (simp add: handle_command_store_inv)
  have "store_inv []" by (simp add: store_inv_def)
  then show "store_inv (fst (run_repl ev b a w ins))"
    unfolding run_repl_def by (rule repl_loop_store_inv)
qed

theorem store_keys_invariant_witness:
  "store_inv [(''k'', ''1'')]
   \<and> store_inv (fst (snd (handle_command (fixed_env True (Exited 0)) '':set a-b = 2'' ''git'' []
        [(''k'', ''1'')] (fresh_world ''/'' []))))
   \<and> fst (snd (handle_command (fixed_env True (Exited 0)) '':set a-b = 2'' ''git'' []
        [(''k'', ''1'')] (fresh_world ''/'' [])))
      = [(''k'', ''1''), (''a-b'', ''2'')]"
proof -
  have i: "store_inv [(''k'', ''1'')]"
    by (simp add: store_inv_def strip_def is_space_def)
  have h: "fst (snd (handle_command (fixed_env True (Exited 0)) '':set a-b = 2'' ''git'' []
        [(''k'', ''1'')] (fresh_world ''/'' [])))
      = [(''k'', ''1''), (''a-b'', ''2'')]"
    by (simp add: handle_command_def startswith_def strip_def is_space_def)
  from store_keys_invariant [of "[(''k'', ''1'')]" "fixed_env True (Exited 0)" "'':set a-b = 2''"
      "''git''" "[]" "fresh_world ''/'' []", THEN conjunct1, THEN mp, OF i] i h
  show ?thesis by simp
qed

text \<open>
  Claim C9 as stated says that every stored key is an identifier.  The session whose
  only line is \<open>:set a-b=1\<close> ends with the key \<open>a-b\<close> in the store, which is not an
  identifier.
\<close>

theorem store_key_not_identifier:
  "fst (run_repl (fixed_env True (Exited 0)) ''git'' [] (fresh_world ''/'' []) ['':set a-b=1''])
     = [(''a-b'', ''1'')]
   \<and> \<not> is_identifier ''a-b''"
proof -
  have l: "\<not> endswith '':set a-b=1'' [BSLASH]" "strip '':set a-b=1'' = '':set a-b=1''"
    by (simp_all add: endswith_def strip_def is_space_def)
  have h: "handle_command (fixed_env True (Exited 0)) '':set a-b=1'' ''git'' [] []
      (show_prompt (fresh_world ''/'' []) (prompt ''git''))
      = (Continue, [(''a-b'', ''1'')], show_prompt (fresh_world ''/'' []) (prompt ''git''))"
    by (simp add: handle_command_def startswith_def strip_def is_space_def)
  have "fst (run_repl (fixed_env True (Exited 0)) ''git'' [] (fresh_world ''/'' [])
      ['':set a-b=1'']) = [(''a-b'', ''1'')]"
    unfolding run_repl_def
    by (simp add: repl_loop_one_line l h repl_loop_end_of_input)
  moreover have "\<not> is_identifier ''a-b''"
    by (simp add: is_identifier_def is_ident_start_def is_ident_char_def)
  ultimately show ?thesis ..
qed

section \<open>Built-ins and shell escapes take the raw text\<close>

lemma shell_is_no_builtin: "startswith raw ''!'' \<Longrightarrow> \<not> startswith raw '':''"
  by (auto simp: startswith_def)

lemma cd_is_no_other_builtin:
  "startswith cmd ''cd '' \<Longrightarrow>
   cmd \<notin> set [''q'', ''quit'', ''exit'', ''help'', ''vars'', ''pwd'']
   \<and> \<not> startswith cmd ''set ''"
  by (cases cmd) (auto simp: startswith_def)

lemma handle_shell_escape:
  assumes "startswith raw ''!''"
  shows "handle_command ev raw b a vm w =
    (let shell_cmd = strip (drop 1 raw) in
     if shell_cmd = [] then (Continue, vm, w)
     else (Continue, vm,
           if shell_call ev w shell_cmd \<noteq> 0
           then print_err (w\<lparr>shell_calls := shell_calls w @ [shell_cmd]\<rparr>)
                  (''[shell] exited with code '' @ str_int (shell_call ev w shell_cmd))
           else w\<lparr>shell_calls := shell_calls w @ [shell_cmd]\<rparr>))"
  using assms shell_is_no_builtin [OF assms] by (simp add: handle_command_def Let_def)

lemma builtin_world_independent_of_store:
  assumes "startswith raw '':''" "strip (drop 1 raw) \<noteq> ''vars''"
  shows "snd (snd (handle_command ev raw b a vm w)) = snd (snd (handle_command ev raw b a vm2 w))"
  using assms by (simp add: handle_command_def Let_def split: sum.splits)

text \<open>
  Claim C10.  Substitution is applied to forwarded lines only.  For a shell escape the
  text handed to the shell is the stripped raw text after \<open>!\<close>, and the result, the
  store and the world after the call are the same whatever the store holds.  For a
  built-in the result does not depend on the store, and neither does the world after
  the call unless the command is \<open>vars\<close>, which prints the stored pairs as they are;
  \<open>set\<close> stores the stripped raw key and value, \<open>cd\<close> passes the stripped raw path
  on, and no other built-in changes the store.
\<close>

theorem no_expansion_outside_forwarding:
  "(startswith raw ''!'' \<longrightarrow>
      fst (handle_command ev raw b a vm w) = Continue
      \<and> fst (snd (handle_command ev raw b a vm w)) = vm
      \<and> shell_calls (snd (snd (handle_command ev raw b a vm w)))
          = shell_calls w @ (if strip (drop 1 raw) = [] then [] else [strip (drop 1 raw)])
      \<and> snd (snd (handle_command ev raw b a vm w)) = snd (snd (handle_command ev raw b a vm2 w)))
   \<and> (startswith raw '':'' \<longrightarrow>
      fst (handle_command ev raw b a vm w) = fst (handle_command ev raw b a vm2 w)
      \<and> (strip (drop 1 raw) \<noteq> ''vars'' \<longrightarrow>
           snd (snd (handle_command ev raw b a vm w))
             = snd (snd (handle_command ev raw b a vm2 w)))
      \<and> (strip (drop 1 raw) = ''vars'' \<longrightarrow>
           handle_command ev raw b a vm w
             = (Continue, vm, w\<lparr>out := out w @ map (\<lambda>(k, v). k @ ''='' @ v) vm\<rparr>))
      \<and> (startswith (strip (drop 1 raw)) ''set ''
           \<and> strip (drop 4 (strip (drop 1 raw))) = k @ CHR ''='' # v \<and> CHR ''='' \<notin> set k \<longrightarrow>
           fst (snd (handle_command ev raw b a vm w)) = AList.update (strip k) (strip v) vm)
      \<and> (startswith (strip (drop 1 raw)) ''set ''
           \<and> CHR ''='' \<notin> set (strip (drop 4 (strip (drop 1 raw)))) \<longrightarrow>
           fst (snd (handle_command ev raw b a vm w)) = vm)
      \<and> (\<not> startswith (strip (drop 1 raw)) ''set '' \<longrightarrow>
           fst (snd (handle_command ev raw b a vm w)) = vm)
      \<and> (startswith (strip (drop 1 raw)) ''cd '' \<longrightarrow>
           handle_command ev raw b a vm w
             = (case chdir ev w (strip (drop 3 (strip (drop 1 raw)))) of
                  Inr d \<Rightarrow> (Continue, vm, w\<lparr>cwd := d\<rparr>)
                | Inl e \<Rightarrow> (Continue, vm, print_err w (''cd: '' @ e)))))"
proof (intro conjI impI)
  assume s: "startswith raw ''!''"
  note h = handle_shell_escape [OF s]
  show "fst (handle_command ev raw b a vm w) = Continue"
    by (simp add: h Let_def)
  show "fst (snd (handle_command ev raw b a vm w)) = vm"
    by (simp add: h Let_def)
  show "shell_calls (snd (snd (handle_command ev raw b a vm w)))
      = shell_calls w @ (if strip (drop 1 raw) = [] then [] else [strip (drop 1 raw)])"
    by (simp add: h world_fields Let_def)
  show "snd (snd (handle_command ev raw b a vm w)) = snd (snd (handle_command ev raw b a vm2 w))"
    by (simp add: h Let_def)
next
  assume c: "startswith raw '':''"
  show "fst (handle_command ev raw b a vm w) = fst (handle_command ev raw b a vm2 w)"
    by (simp add: builtin_outcome [OF c])
  show "snd (snd (handle_command ev raw b a vm w)) = snd (snd (handle_command ev raw b a vm2 w))"
    if "strip (drop 1 raw) \<noteq> ''vars''"
    using c that by (rule builtin_world_independent_of_store)
  show "handle_command ev raw b a vm w
      = (Continue, vm, w\<lparr>out := out w @ map (\<lambda>(k, v). k @ ''='' @ v) vm\<rparr>)"
    if "strip (drop 1 raw) = ''vars''"
    using c that by (simp add: handle_command_def startswith_def foldl_print_out)
  show "fst (snd (handle_command ev raw b a vm w)) = AList.update (strip k) (strip v) vm"
    if "startswith (strip (drop 1 raw)) ''set ''
           \<and> strip (drop 4 (strip (drop 1 raw))) = k @ CHR ''='' # v \<and> CHR ''='' \<notin> set k"
    using c that by (simp add: handle_set_assign)
  show "fst (snd (handle_command ev raw b a vm w)) = vm"
    if "startswith (strip (drop 1 raw)) ''set ''
           \<and> CHR ''='' \<notin> set (strip (drop 4 (strip (drop 1 raw))))"
    using c that by (simp add: handle_set_usage)
  show "fst (snd (handle_command ev raw b a vm w)) = vm"
    if "\<not> startswith (strip (drop 1 raw)) ''set ''"
    using c that by (simp add: handle_command_def Let_def split: sum.splits)
  show "handle_command ev raw b a vm w
      = (case chdir ev w (strip (drop 3 (strip (drop 1 raw)))) of
           Inr d \<Rightarrow> (Continue, vm, w\<lparr>cwd := d\<rparr>)
         | Inl e \<Rightarrow> (Continue, vm, print_err w (''cd: '' @ e)))"
    if "startswith (strip (drop 1 raw)) ''cd ''"
  proof -
    from cd_is_no_other_builtin [OF that] c that show ?thesis
      by (simp add: handle_command_def Let_def)
  qed
qed

theorem no_expansion_outside_forwarding_witness:
  "expand_vars ''echo ${x}'' [(''x'', ''1'')] = ''echo 1''
   \<and> shell_calls (snd (snd (handle_command (fixed_env True (Exited 0)) ''!echo ${x}'' ''git'' []
        [(''x'', ''1'')] (fresh_world ''/'' [])))) = [''echo ${x}'']
   \<and> fst (snd (handle_command (fixed_env True (Exited 0)) '':set y=${x}'' ''git'' []
        [(''x'', ''1'')] (fresh_world ''/'' []))) = [(''x'', ''1''), (''y'', ''${x}'')]
   \<and> cwd (snd (snd (handle_command (fixed_env True (Exited 0)) '':cd ${x}'' ''git'' []
        [(''x'', ''1'')] (fresh_world ''/'' [])))) = ''${x}''"
proof -
  have e: "expand_vars ''echo ${x}'' [(''x'', ''1'')] = ''echo 1''"
    by (simp add: dict_get_def is_ident_start_def is_ident_char_def)
  have s: "startswith ''!echo ${x}'' ''!''" "startswith '':set y=${x}'' '':''"
    "startswith '':cd ${x}'' '':''"
    by (simp_all add: startswith_def)
  have 1: "shell_calls (snd (snd (handle_command (fixed_env True (Exited 0)) ''!echo ${x}''
      ''git'' [] [(''x'', ''1'')] (fresh_world ''/'' [])))) = [''echo ${x}'']"
    using no_expansion_outside_forwarding [THEN conjunct1, THEN mp, OF s(1),
        THEN conjunct2, THEN conjunct2, THEN conjunct1,
        of "fixed_env True (Exited 0)" "''git''" "[]" "[(''x'', ''1'')]" "fresh_world ''/'' []"]
    by (simp add: strip_def is_space_def fresh_world_def)
  have a: "startswith (strip (drop 1 '':set y=${x}'')) ''set ''
      \<and> strip (drop 4 (strip (drop 1 '':set y=${x}''))) = ''y'' @ CHR ''='' # ''${x}''
      \<and> CHR ''='' \<notin> set ''y''"
    by (simp add: startswith_def strip_def is_space_def)
  have 2: "fst (snd (handle_command (fixed_env True (Exited 0)) '':set y=${x}'' ''git'' []
        [(''x'', ''1'')] (fresh_world ''/'' []))) = [(''x'', ''1''), (''y'', ''${x}'')]"
    using no_expansion_outside_forwarding [THEN conjunct2, THEN mp, OF s(2),
        THEN conjunct2, THEN conjunct2, THEN conjunct2, THEN conjunct1, THEN mp, OF a,
        of "fixed_env True (Exited 0)" "''git''" "[]" "[(''x'', ''1'')]" "fresh_world ''/'' []"]
    by (simp add: strip_def is_space_def)
  have d: "startswith (strip (drop 1 '':cd ${x}'')) ''cd ''"
    by (simp add: startswith_def strip_def is_space_def)
  have 3: "cwd (snd (snd (handle_command (fixed_env True (Exited 0)) '':cd ${x}'' ''git'' []
        [(''x'', ''1'')] (fresh_world ''/'' [])))) = ''${x}''"
    using no_expansion_outside_forwarding [THEN conjunct2, THEN mp, OF s(3),
        THEN conjunct2, THEN conjunct2, THEN conjunct2, THEN conjunct2, THEN conjunct2,
        THEN conjunct2, THEN mp, OF d,
        of "fixed_env True (Exited 0)" "''git''" "[]" "[(''x'', ''1'')]" "fresh_world ''/'' []"]
    by (simp add: strip_def is_space_def fixed_env_def)
  from e 1 2 3 show ?thesis by blast
qed

end
